theory Spec2Isabelle
  imports Main "HOL-Library.Word" "HOL-Library.Signed_Division"
begin

unbundle bit_operations_syntax

section \<open>Data model of tpl.go\<close>

text \<open>
  Go's fixed-width unsigned integers are words. Go's \<open>int\<close> (image coordinates, loop
  counters, slice lengths and indices) is modelled by the unbounded \<open>int\<close>: the sums and
  products of coordinates the program forms are taken without wrap-around. Go's \<open>/\<close> and
  \<open>%\<close> on \<open>int\<close> truncate towards zero, which is \<open>sdiv\<close> and \<open>smod\<close>.
\<close>

type_synonym byte = "8 word"
type_synonym uint16 = "16 word"
type_synonym uint32 = "32 word"

text \<open>The run-time panics of Go that the program can raise; no function of tpl.go
  constructs an error value of its own.\<close>

datatype error = IndexOutOfRange | MakeSliceLenOutOfRange

text \<open>
  An \<open>image.Image\<close> as the program uses it: \<open>Bounds()\<close> with its two corners, and
  \<open>At(x, y).RGBA()\<close>, which returns the four channels r, g, b, a as \<open>uint32\<close>.
\<close>

record Image =
  Min_X :: int
  Min_Y :: int
  Max_X :: int
  Max_Y :: int
  At_RGBA :: "int \<Rightarrow> int \<Rightarrow> uint32 \<times> uint32 \<times> uint32 \<times> uint32"

definition TPLMagic :: uint32 where
  "TPLMagic = 0x0020AF30"

record FileHeader =
  Magic :: uint32
  NumOfImages :: uint32
  ImageTableOff :: uint32

text \<open>\<open>LODBias\<close> is a \<open>float32\<close> in the source; the field holds its IEEE-754 bit
  pattern, which is what the serialization writes. The program only stores 0 there.\<close>

record ImageHeader =
  Height :: uint16
  Width :: uint16
  Format :: uint32
  DataOffset :: uint32
  WrapS :: uint32
  WrapT :: uint32
  MinFilter :: uint32
  MagFilter :: uint32
  LODBias :: uint32
  EdgeLOD :: byte
  MidLOD :: byte
  MaxLOD :: byte
  Unpacked :: byte

record TPL =
  Header :: FileHeader
  ImageOff :: uint32
  PaletteOff :: uint32
  Image :: ImageHeader

type_synonym TextureFormat = uint32

definition I4 :: TextureFormat where "I4 = 0"
definition I8 :: TextureFormat where "I8 = 1"
definition IA4 :: TextureFormat where "IA4 = 2"
definition IA8 :: TextureFormat where "IA8 = 3"
definition RGB565 :: TextureFormat where "RGB565 = 4"
definition RGB5A3 :: TextureFormat where "RGB5A3 = 5"
definition RGBA8 :: TextureFormat where "RGBA8 = 6"

section \<open>Slices and loops\<close>

text \<open>\<open>make([]T, n)\<close>: a zeroed slice; a negative length panics.\<close>

definition make_slice :: "int \<Rightarrow> error + ('a::zero) list" where
  "make_slice n = (if n < 0 then Inl MakeSliceLenOutOfRange else Inr (replicate (nat n) 0))"

text \<open>\<open>s[i]\<close> as a read and \<open>s[i] = v\<close> as a write; both panic outside the slice.\<close>

definition load :: "'a list \<Rightarrow> int \<Rightarrow> error + 'a" where
  "load s i = (if 0 \<le> i \<and> i < int (length s) then Inr (s ! nat i) else Inl IndexOutOfRange)"

definition store :: "'a list \<Rightarrow> int \<Rightarrow> 'a \<Rightarrow> error + 'a list" where
  "store s i v = (if 0 \<le> i \<and> i < int (length s) then Inr (s[nat i := v]) else Inl IndexOutOfRange)"

text \<open>\<open>for i := i0; i < n; i += step { body }\<close> over a state, stopping at the first
  panic. Every loop of the program has a constant positive step.\<close>

function for_loop :: "int \<Rightarrow> int \<Rightarrow> int \<Rightarrow> (int \<Rightarrow> 's \<Rightarrow> error + 's) \<Rightarrow> 's \<Rightarrow> error + 's" where
  "for_loop i n step body s =
     (if i < n \<and> 0 < step
      then (case body i s of Inl e \<Rightarrow> Inl e | Inr s' \<Rightarrow> for_loop (i + step) n step body s')
      else Inr s)"
  by pat_completeness auto
termination
  by (relation "measure (\<lambda>(i, n, step, body, s). nat (n - i))") auto

declare for_loop.simps [simp del]

section \<open>addPadding\<close>

definition addPadding :: "int \<Rightarrow> int \<Rightarrow> int" where
  "addPadding value padding =
     (if value smod padding \<noteq> 0 then value + (padding - (value smod padding)) else value)"

section \<open>imageToRGBA\<close>

definition imageToRGBA_body :: "Image \<Rightarrow> int \<Rightarrow> int \<Rightarrow> uint32 list \<times> int \<Rightarrow> error + uint32 list \<times> int" where
  "imageToRGBA_body img y x = (\<lambda>(raw, idx).
     case At_RGBA img x y of (r, g, b, a) \<Rightarrow>
       (case store raw idx
               (push_bit 24 (a AND 0xff) OR push_bit 16 (r AND 0xff)
                  OR push_bit 8 (g AND 0xff) OR push_bit 0 (b AND 0xff)) of
          Inl e \<Rightarrow> Inl e
        | Inr raw' \<Rightarrow> Inr (raw', idx + 1)))"

definition imageToRGBA :: "Image \<Rightarrow> error + uint32 list" where
  "imageToRGBA img =
     (case make_slice ((Max_X img - Min_X img) * (Max_Y img - Min_Y img)) of
        Inl e \<Rightarrow> Inl e
      | Inr raw \<Rightarrow>
          (case for_loop (Min_Y img) (Max_Y img) 1
                  (\<lambda>y. for_loop (Min_X img) (Max_X img) 1 (\<lambda>x. imageToRGBA_body img y x))
                  (raw, 0) of
             Inl e \<Rightarrow> Inl e
           | Inr (raw', idx) \<Rightarrow> Inr raw'))"

section \<open>makeTPLHeader\<close>

text \<open>\<open>binary.Write(buf, binary.BigEndian, tpl)\<close> writes the fields of the struct in
  declaration order, each at its fixed width, most significant byte first, with no padding.
  On a \<open>bytes.Buffer\<close> and a struct of fixed-size fields it returns no error.\<close>

definition be16 :: "uint16 \<Rightarrow> byte list" where
  "be16 w = [ucast (drop_bit 8 w), ucast w]"

definition be32 :: "uint32 \<Rightarrow> byte list" where
  "be32 w = [ucast (drop_bit 24 w), ucast (drop_bit 16 w), ucast (drop_bit 8 w), ucast w]"

definition write_FileHeader :: "FileHeader \<Rightarrow> byte list" where
  "write_FileHeader h = be32 (Magic h) @ be32 (NumOfImages h) @ be32 (ImageTableOff h)"

definition write_ImageHeader :: "ImageHeader \<Rightarrow> byte list" where
  "write_ImageHeader h =
     be16 (Height h) @ be16 (Width h) @ be32 (Format h) @ be32 (DataOffset h)
     @ be32 (WrapS h) @ be32 (WrapT h) @ be32 (MinFilter h) @ be32 (MagFilter h)
     @ be32 (LODBias h) @ [EdgeLOD h, MidLOD h, MaxLOD h, Unpacked h]"

definition write_TPL :: "TPL \<Rightarrow> byte list" where
  "write_TPL t =
     write_FileHeader (Header t) @ be32 (ImageOff t) @ be32 (PaletteOff t)
     @ write_ImageHeader (Image t)"

definition makeTPL :: "TextureFormat \<Rightarrow> int \<Rightarrow> int \<Rightarrow> TPL" where
  "makeTPL format width height =
     \<lparr> Header = \<lparr> Magic = TPLMagic, NumOfImages = 1, ImageTableOff = 0x0C \<rparr>,
       ImageOff = 20,
       PaletteOff = 0,
       Image = \<lparr> Height = word_of_int height, Width = word_of_int width, Format = format,
                 DataOffset = 64, WrapS = 0, WrapT = 0, MinFilter = 1, MagFilter = 1,
                 LODBias = 0, EdgeLOD = 0, MidLOD = 0, MaxLOD = 0, Unpacked = 0 \<rparr> \<rparr>"

definition makeTPLHeader :: "byte list \<Rightarrow> TextureFormat \<Rightarrow> int \<Rightarrow> int \<Rightarrow> error + byte list" where
  "makeTPLHeader raw format width height = Inr (write_TPL (makeTPL format width height) @ raw)"

section \<open>ToI4\<close>

text \<open>The value of \<open>newPixel\<close> at one iteration of the innermost loop.\<close>

definition ToI4_pixel :: "uint32 list \<Rightarrow> int \<Rightarrow> int \<Rightarrow> int \<Rightarrow> int \<Rightarrow> error + byte" where
  "ToI4_pixel raw width height y x =
     (if x \<ge> width \<or> y \<ge> height then Inr 0
      else
        (case load raw (x + (y * width)) of
           Inl e \<Rightarrow> Inl e
         | Inr rgba \<Rightarrow>
            (let r = drop_bit 0 rgba AND 0xff;
                 g = drop_bit 8 rgba AND 0xff;
                 b = drop_bit 16 rgba AND 0xff;
                 i1 = ((r + g + b) div 3) AND 0xff
             in (case (if (x + (y * width) + 1) \<ge> int (length raw) then Inr 0
                       else load raw (x + (y * width) + 1)) of
                   Inl e \<Rightarrow> Inl e
                 | Inr rgba' \<Rightarrow>
                    (let r' = drop_bit 0 rgba' AND 0xff;
                         g' = drop_bit 8 rgba' AND 0xff;
                         b' = drop_bit 16 rgba' AND 0xff;
                         i2 = ((r' + g' + b') div 3) AND 0xff
                     in Inr (ucast (push_bit 4 ((i1 * 15) div 255)
                                      OR (((i2 * 15) div 255) AND 0xf))))))))"

definition ToI4_body :: "uint32 list \<Rightarrow> int \<Rightarrow> int \<Rightarrow> int \<Rightarrow> int \<Rightarrow> byte list \<times> int \<Rightarrow> error + byte list \<times> int" where
  "ToI4_body raw width height y x = (\<lambda>(output, inp).
     case ToI4_pixel raw width height y x of
       Inl e \<Rightarrow> Inl e
     | Inr newPixel \<Rightarrow>
        (case store output inp newPixel of
           Inl e \<Rightarrow> Inl e
         | Inr output' \<Rightarrow> Inr (output', inp + 1)))"

text \<open>The buffer allocation and the four nested loops: the payload handed to
  \<open>makeTPLHeader\<close>.\<close>

definition ToI4_encode :: "uint32 list \<Rightarrow> int \<Rightarrow> int \<Rightarrow> error + byte list" where
  "ToI4_encode raw width height =
     (case make_slice (addPadding width 8 * addPadding height 8 sdiv 2) of
        Inl e \<Rightarrow> Inl e
      | Inr output \<Rightarrow>
         (case for_loop 0 height 8 (\<lambda>y1.
                 for_loop 0 width 8 (\<lambda>x1.
                   for_loop y1 (y1 + 8) 1 (\<lambda>y.
                     for_loop x1 (x1 + 8) 2 (\<lambda>x. ToI4_body raw width height y x))))
                 (output, 0) of
            Inl e \<Rightarrow> Inl e
          | Inr (output', inp) \<Rightarrow> Inr output'))"

definition ToI4 :: "Image \<Rightarrow> error + byte list" where
  "ToI4 img =
     (case imageToRGBA img of
        Inl e \<Rightarrow> Inl e
      | Inr raw \<Rightarrow>
         (case ToI4_encode raw (Max_X img) (Max_Y img) of
            Inl e \<Rightarrow> Inl e
          | Inr output \<Rightarrow> makeTPLHeader output I4 (Max_X img) (Max_Y img)))"

section \<open>ToIA4\<close>

definition ToIA4_pixel :: "uint32 list \<Rightarrow> int \<Rightarrow> int \<Rightarrow> int \<Rightarrow> int \<Rightarrow> error + byte" where
  "ToIA4_pixel raw width height y x =
     (if y \<ge> height \<or> x \<ge> width then Inr 0
      else
        (case load raw (x + (y * width)) of
           Inl e \<Rightarrow> Inl e
         | Inr rgba \<Rightarrow>
            (let r = drop_bit 0 rgba AND 0xff;
                 g = drop_bit 8 rgba AND 0xff;
                 b = drop_bit 16 rgba AND 0xff;
                 i = ((r + g + b) div 3) AND 0xff;
                 a = drop_bit 24 rgba AND 0xff
             in Inr (ucast ((((i * 15) div 255) AND 0xf) OR push_bit 4 ((a * 15) div 255))))))"

definition ToIA4_body :: "uint32 list \<Rightarrow> int \<Rightarrow> int \<Rightarrow> int \<Rightarrow> int \<Rightarrow> byte list \<times> int \<Rightarrow> error + byte list \<times> int" where
  "ToIA4_body raw width height y x = (\<lambda>(output, inp).
     case ToIA4_pixel raw width height y x of
       Inl e \<Rightarrow> Inl e
     | Inr newPixel \<Rightarrow>
        (case store output inp newPixel of
           Inl e \<Rightarrow> Inl e
         | Inr output' \<Rightarrow> Inr (output', inp + 1)))"

definition ToIA4_encode :: "uint32 list \<Rightarrow> int \<Rightarrow> int \<Rightarrow> error + byte list" where
  "ToIA4_encode raw width height =
     (case make_slice (addPadding width 8 * addPadding height 4) of
        Inl e \<Rightarrow> Inl e
      | Inr output \<Rightarrow>
         (case for_loop 0 height 4 (\<lambda>y1.
                 for_loop 0 width 8 (\<lambda>x1.
                   for_loop y1 (y1 + 4) 1 (\<lambda>y.
                     for_loop x1 (x1 + 8) 1 (\<lambda>x. ToIA4_body raw width height y x))))
                 (output, 0) of
            Inl e \<Rightarrow> Inl e
          | Inr (output', inp) \<Rightarrow> Inr output'))"

definition ToIA4 :: "Image \<Rightarrow> error + byte list" where
  "ToIA4 img =
     (case imageToRGBA img of
        Inl e \<Rightarrow> Inl e
      | Inr raw \<Rightarrow>
         (case ToIA4_encode raw (Max_X img) (Max_Y img) of
            Inl e \<Rightarrow> Inl e
          | Inr output \<Rightarrow> makeTPLHeader output IA4 (Max_X img) (Max_Y img)))"

section \<open>ToRGB5A3\<close>

text \<open>\<open>newPixel\<close> is a Go \<open>int\<close> here; its bitwise operations are those of \<open>int\<close> in
  two's complement, and \<open>int(e)\<close> of a \<open>uint32\<close> is \<open>uint\<close>. The value computed in the
  else branch of the bounds test, for the texel \<open>rgba\<close>:\<close>

definition ToRGB5A3_pixel :: "uint32 \<Rightarrow> int" where
  "ToRGB5A3_pixel rgba =
     (let newPixel = (0 :: int);
          r = drop_bit 16 rgba AND 0xff;
          g = drop_bit 8 rgba AND 0xff;
          b = drop_bit 0 rgba AND 0xff;
          a = drop_bit 24 rgba AND 0xff
      in if a \<le> 0xda
         then
           (let newPixel = newPixel AND NOT (push_bit 15 1);
                r = ((r * 15) div 255) AND 0xf;
                g = ((g * 15) div 255) AND 0xf;
                b = ((b * 15) div 255) AND 0xf;
                a = ((a * 7) div 255) AND 0x7
            in newPixel OR uint (push_bit 12 a OR push_bit 8 r OR push_bit 4 g OR b))
         else
           (let newPixel = newPixel OR push_bit 15 1;
                r = ((r * 31) div 255) AND 0x1f;
                g = ((g * 31) div 255) AND 0x1f;
                b = ((b * 31) div 255) AND 0x1f
            in newPixel OR uint (push_bit 10 r OR push_bit 5 g OR b)))"

text \<open>One iteration of the innermost loop. The two writes and the increments of \<open>z\<close>
  are inside the else branch of the bounds test, as in the source.\<close>

definition ToRGB5A3_body :: "uint32 list \<Rightarrow> int \<Rightarrow> int \<Rightarrow> int \<Rightarrow> int \<Rightarrow> byte list \<times> int \<Rightarrow> error + byte list \<times> int" where
  "ToRGB5A3_body raw width height y x = (\<lambda>(output, z).
     if y \<ge> height \<or> x \<ge> width then Inr (output, z)
     else
       (case load raw (x + (y * width)) of
          Inl e \<Rightarrow> Inl e
        | Inr rgba \<Rightarrow>
           (let newPixel = ToRGB5A3_pixel rgba;
                z = z + 1
            in (case store output z (word_of_int (drop_bit 8 newPixel)) of
                  Inl e \<Rightarrow> Inl e
                | Inr output' \<Rightarrow>
                   (let z = z + 1
                    in (case store output' z (word_of_int (newPixel AND 0xff)) of
                          Inl e \<Rightarrow> Inl e
                        | Inr output'' \<Rightarrow> Inr (output'', z)))))))"

definition ToRGB5A3_encode :: "uint32 list \<Rightarrow> int \<Rightarrow> int \<Rightarrow> error + byte list" where
  "ToRGB5A3_encode raw width height =
     (case make_slice (addPadding width 4 * addPadding height 4 * 2) of
        Inl e \<Rightarrow> Inl e
      | Inr output \<Rightarrow>
         (case for_loop 0 height 4 (\<lambda>y1.
                 for_loop 0 width 4 (\<lambda>x1.
                   for_loop y1 (y1 + 4) 1 (\<lambda>y.
                     for_loop x1 (x1 + 4) 1 (\<lambda>x. ToRGB5A3_body raw width height y x))))
                 (output, -1) of
            Inl e \<Rightarrow> Inl e
          | Inr (output', z) \<Rightarrow> Inr output'))"

definition ToRGB5A3 :: "Image \<Rightarrow> error + byte list" where
  "ToRGB5A3 img =
     (case imageToRGBA img of
        Inl e \<Rightarrow> Inl e
      | Inr raw \<Rightarrow>
         (case ToRGB5A3_encode raw (Max_X img) (Max_Y img) of
            Inl e \<Rightarrow> Inl e
          | Inr output \<Rightarrow> makeTPLHeader output RGB5A3 (Max_X img) (Max_Y img)))"

section \<open>ToRGB565\<close>

definition ToRGB565_pixel :: "uint32 list \<Rightarrow> int \<Rightarrow> int \<Rightarrow> int \<Rightarrow> int \<Rightarrow> error + uint16" where
  "ToRGB565_pixel raw width height y x =
     (if y \<ge> height \<or> x \<ge> width then Inr 0
      else
        (case load raw (x + y * width) of
           Inl e \<Rightarrow> Inl e
         | Inr rgb \<Rightarrow>
            (let b = drop_bit 16 rgb AND 0xff;
                 g = drop_bit 8 rgb AND 0xff;
                 r = drop_bit 0 rgb AND 0xff
             in Inr (ucast (push_bit 0 (drop_bit 3 r) OR push_bit 5 (drop_bit 2 g)
                              OR push_bit 11 (drop_bit 3 b))))))"

definition ToRGB565_body :: "uint32 list \<Rightarrow> int \<Rightarrow> int \<Rightarrow> int \<Rightarrow> int \<Rightarrow> byte list \<times> int \<Rightarrow> error + byte list \<times> int" where
  "ToRGB565_body raw width height y x = (\<lambda>(output, z).
     case ToRGB565_pixel raw width height y x of
       Inl e \<Rightarrow> Inl e
     | Inr newPixel \<Rightarrow>
        (let z = z + 1
         in (case store output z (ucast (drop_bit 8 newPixel)) of
               Inl e \<Rightarrow> Inl e
             | Inr output' \<Rightarrow>
                (let z = z + 1
                 in (case store output' z (ucast (newPixel AND 0xff)) of
                       Inl e \<Rightarrow> Inl e
                     | Inr output'' \<Rightarrow> Inr (output'', z))))))"

definition ToRGB565_encode :: "uint32 list \<Rightarrow> int \<Rightarrow> int \<Rightarrow> error + byte list" where
  "ToRGB565_encode raw width height =
     (case make_slice (addPadding width 4 * addPadding height 4 * 2) of
        Inl e \<Rightarrow> Inl e
      | Inr output \<Rightarrow>
         (case for_loop 0 height 4 (\<lambda>y1.
                 for_loop 0 width 4 (\<lambda>x1.
                   for_loop y1 (y1 + 4) 1 (\<lambda>y.
                     for_loop x1 (x1 + 4) 1 (\<lambda>x. ToRGB565_body raw width height y x))))
                 (output, -1) of
            Inl e \<Rightarrow> Inl e
          | Inr (output', z) \<Rightarrow> Inr output'))"

definition ToRGB565 :: "Image \<Rightarrow> error + byte list" where
  "ToRGB565 img =
     (case imageToRGBA img of
        Inl e \<Rightarrow> Inl e
      | Inr raw \<Rightarrow>
         (case ToRGB565_encode raw (Max_X img) (Max_Y img) of
            Inl e \<Rightarrow> Inl e
          | Inr output \<Rightarrow> makeTPLHeader output RGB565 (Max_X img) (Max_Y img)))"

section \<open>Specification-side definitions\<close>

subsection \<open>Loops as lists of writes\<close>

text \<open>The values the loop variable of \<open>for i := i0; i < n; i += step\<close> takes, in order.\<close>

function loop_indices :: "int \<Rightarrow> int \<Rightarrow> int \<Rightarrow> int list" where
  "loop_indices i n step = (if i < n \<and> 0 < step then i # loop_indices (i + step) n step else [])"
  by pat_completeness auto
termination
  by (relation "measure (\<lambda>(i, n, step). nat (n - i))") auto

declare loop_indices.simps [simp del]

text \<open>\<open>overwrite out p bs\<close> is the buffer \<open>out\<close> with \<open>bs\<close> written from position \<open>p\<close>
  on. A command \<open>c\<close> on a buffer and a counter \<open>writes d c bs\<close> when, started with the
  counter at \<open>p + d\<close> and room for \<open>bs\<close>, it stores \<open>bs\<close> from \<open>p\<close> on and advances the
  counter by the length of \<open>bs\<close>. The offset \<open>d\<close> is 0 for a counter that is incremented
  after each store and -1 for one that is incremented before.\<close>

definition overwrite :: "'a list \<Rightarrow> nat \<Rightarrow> 'a list \<Rightarrow> 'a list" where
  "overwrite out p bs = take p out @ bs @ drop (p + length bs) out"

definition writes :: "int \<Rightarrow> ('a list \<times> int \<Rightarrow> error + 'a list \<times> int) \<Rightarrow> 'a list \<Rightarrow> bool" where
  "writes d c bs \<longleftrightarrow>
     (\<forall>out p. p + length bs \<le> length out \<longrightarrow>
        c (out, int p + d) = Inr (overwrite out p bs, int (p + length bs) + d))"

text \<open>The texel positions \<open>(x, y)\<close> in the order the four nested loops of an encoder
  visit them: blocks of \<open>bw\<close> by \<open>bh\<close> texels row by row, and inside a block the rows top
  down, each row left to right in steps of \<open>dx\<close>.\<close>

definition block_order :: "int \<Rightarrow> int \<Rightarrow> int \<Rightarrow> int \<Rightarrow> int \<Rightarrow> (int \<times> int) list" where
  "block_order bw bh dx w h =
     concat (map (\<lambda>y1.
       concat (map (\<lambda>x1.
         concat (map (\<lambda>y.
           map (\<lambda>x. (x, y)) (loop_indices x1 (x1 + bw) dx))
           (loop_indices y1 (y1 + bh) 1)))
         (loop_indices 0 w bw)))
       (loop_indices 0 h bh))"

subsection \<open>Texels and channels\<close>

text \<open>The packing of one pixel the specification gives for the texel array:
  \<open>(alpha<<24)|(red<<16)|(green<<8)|blue\<close>, each channel masked to its low 8 bits.\<close>

definition ARGB :: "uint32 \<Rightarrow> uint32 \<Rightarrow> uint32 \<Rightarrow> uint32 \<Rightarrow> uint32" where
  "ARGB a r g b =
     push_bit 24 (a AND 0xff) OR push_bit 16 (r AND 0xff) OR push_bit 8 (g AND 0xff) OR (b AND 0xff)"

definition texel :: "Image \<Rightarrow> int \<Rightarrow> int \<Rightarrow> uint32" where
  "texel img x y = (case At_RGBA img x y of (r, g, b, a) \<Rightarrow> ARGB a r g b)"

text \<open>The pixels of the image row by row, each row left to right.\<close>

definition raster :: "Image \<Rightarrow> uint32 list" where
  "raster img =
     concat (map (\<lambda>y. map (\<lambda>x. texel img x y) [Min_X img..Max_X img - 1])
               [Min_Y img..Max_Y img - 1])"

text \<open>The low 8 bits of a channel value, as a number.\<close>

definition chan8 :: "uint32 \<Rightarrow> nat" where
  "chan8 c = unat c mod 256"

text \<open>The four 8-bit fields of a texel word: bits 24-31, 16-23, 8-15 and 0-7.\<close>

definition alpha_of :: "uint32 \<Rightarrow> nat" where "alpha_of t = (unat t div 2 ^ 24) mod 256"
definition red_of :: "uint32 \<Rightarrow> nat" where "red_of t = (unat t div 2 ^ 16) mod 256"
definition green_of :: "uint32 \<Rightarrow> nat" where "green_of t = (unat t div 2 ^ 8) mod 256"
definition blue_of :: "uint32 \<Rightarrow> nat" where "blue_of t = unat t mod 256"

text \<open>The 8-bit channels of the pixel of the image at \<open>(x, y)\<close>.\<close>

definition red_at :: "Image \<Rightarrow> int \<Rightarrow> int \<Rightarrow> nat" where
  "red_at img x y = (case At_RGBA img x y of (r, g, b, a) \<Rightarrow> chan8 r)"
definition green_at :: "Image \<Rightarrow> int \<Rightarrow> int \<Rightarrow> nat" where
  "green_at img x y = (case At_RGBA img x y of (r, g, b, a) \<Rightarrow> chan8 g)"
definition blue_at :: "Image \<Rightarrow> int \<Rightarrow> int \<Rightarrow> nat" where
  "blue_at img x y = (case At_RGBA img x y of (r, g, b, a) \<Rightarrow> chan8 b)"
definition alpha_at :: "Image \<Rightarrow> int \<Rightarrow> int \<Rightarrow> nat" where
  "alpha_at img x y = (case At_RGBA img x y of (r, g, b, a) \<Rightarrow> chan8 a)"

subsection \<open>Quantization and the per-format values of the specification\<close>

text \<open>Quantization of an 8-bit value to the range \<open>0..m\<close>: \<open>(value * m) / 255\<close>.\<close>

definition quant :: "nat \<Rightarrow> nat \<Rightarrow> nat" where
  "quant m v = (v * m) div 255"

text \<open>Intensity \<open>(r + g + b) / 3\<close>, of a texel word and of a pixel of the image.\<close>

definition intensity_of :: "uint32 \<Rightarrow> nat" where
  "intensity_of t = (red_of t + green_of t + blue_of t) div 3"

definition intensity_at :: "Image \<Rightarrow> int \<Rightarrow> int \<Rightarrow> nat" where
  "intensity_at img x y = (red_at img x y + green_at img x y + blue_at img x y) div 3"

text \<open>Big-endian bytes of a 16-bit value: high byte first, then low byte.\<close>

definition be16_bytes :: "nat \<Rightarrow> byte list" where
  "be16_bytes v = [word_of_nat (v div 256), word_of_nat (v mod 256)]"


text \<open>IA4: alpha in the high nibble, intensity in the low nibble.\<close>

definition spec_IA4 :: "uint32 \<Rightarrow> nat" where
  "spec_IA4 t = 16 * quant 15 (alpha_of t) + quant 15 (intensity_of t)"

text \<open>RGB565 as the program packs a texel word: the field in bits 16-23 of the texel
  (red) at bits 11-15, the field in bits 8-15 (green) at bits 5-10, the field in bits 0-7
  (blue) at bits 0-4.\<close>

definition code_RGB565 :: "uint32 \<Rightarrow> nat" where
  "code_RGB565 t = 2048 * (red_of t div 8) + 32 * (green_of t div 4) + blue_of t div 8"



definition IA4_emit :: "uint32 list \<Rightarrow> int \<Rightarrow> int \<Rightarrow> int \<times> int \<Rightarrow> byte list" where
  "IA4_emit raw w h = (\<lambda>(x, y).
     [if x < w \<and> y < h then word_of_nat (spec_IA4 (raw ! nat (x + y * w))) else 0])"

definition RGB565_emit :: "uint32 list \<Rightarrow> int \<Rightarrow> int \<Rightarrow> int \<times> int \<Rightarrow> byte list" where
  "RGB565_emit raw w h = (\<lambda>(x, y).
     if x < w \<and> y < h then be16_bytes (code_RGB565 (raw ! nat (x + y * w))) else [0, 0])"


subsection \<open>The per-format bytes in terms of the pixels of the image\<close>


text \<open>IA4 at position \<open>(x, y)\<close>: alpha in the high nibble, intensity in the low nibble.\<close>

definition IA4_byte_at :: "Image \<Rightarrow> int \<times> int \<Rightarrow> byte" where
  "IA4_byte_at img = (\<lambda>(x, y).
     if x < Max_X img \<and> y < Max_Y img
     then word_of_nat (16 * quant 15 (alpha_at img x y) + quant 15 (intensity_at img x y))
     else 0)"

text \<open>RGB565 as the program computes it: red \<open>r >> 3\<close> in bits 11-15, green \<open>g >> 2\<close> in
  bits 5-10, blue \<open>b >> 3\<close> in bits 0-4.\<close>

definition RGB565_value_at :: "Image \<Rightarrow> int \<Rightarrow> int \<Rightarrow> nat" where
  "RGB565_value_at img x y =
     2048 * (red_at img x y div 8) + 32 * (green_at img x y div 4) + blue_at img x y div 8"


definition RGB565_bytes_at :: "Image \<Rightarrow> int \<times> int \<Rightarrow> byte list" where
  "RGB565_bytes_at img = (\<lambda>(x, y).
     if x < Max_X img \<and> y < Max_Y img then be16_bytes (RGB565_value_at img x y) else [0, 0])"




text \<open>The four conversions, each with its format id and the encoder that produces its
  payload.\<close>

definition converters :: "((Image \<Rightarrow> error + byte list) \<times> TextureFormat \<times> (uint32 list \<Rightarrow> int \<Rightarrow> int \<Rightarrow> error + byte list)) list" where
  "converters = [(ToI4, I4, ToI4_encode), (ToIA4, IA4, ToIA4_encode),
                 (ToRGB5A3, RGB5A3, ToRGB5A3_encode), (ToRGB565, RGB565, ToRGB565_encode)]"

subsection \<open>Test images\<close>

text \<open>\<open>RGBA()\<close> returns 16-bit channel values; \<open>0xffff\<close> is a full channel.\<close>

definition white_1x1 :: Image where
  "white_1x1 = \<lparr> Min_X = 0, Min_Y = 0, Max_X = 1, Max_Y = 1,
                 At_RGBA = (\<lambda>x y. (0xffff, 0xffff, 0xffff, 0xffff)) \<rparr>"





definition white_1x2 :: Image where
  "white_1x2 = \<lparr> Min_X = 0, Min_Y = 0, Max_X = 1, Max_Y = 2,
                 At_RGBA = (\<lambda>x y. (0xffff, 0xffff, 0xffff, 0xffff)) \<rparr>"



text \<open>A 2 by 2 image whose bounds start at (1, 1).\<close>

definition offset_2x2 :: Image where
  "offset_2x2 = \<lparr> Min_X = 1, Min_Y = 1, Max_X = 3, Max_Y = 3,
                  At_RGBA = (\<lambda>x y. (0xffff, 0xffff, 0xffff, 0xffff)) \<rparr>"

section \<open>Auxiliary lemmas\<close>

lemma unat_and_mask32: "unat (c AND (mask n :: uint32)) = unat c mod 2 ^ n"
proof -
  have "unat (c AND mask n) = unat (take_bit n c)"
    by (simp only: take_bit_eq_mask)
  also have "\<dots> = take_bit n (unat c)"
    by (simp only: unsigned_take_bit_eq)
  finally show ?thesis
    by (simp add: take_bit_eq_mod)
qed

lemma unat_and_ff: "unat (c AND (0xff :: uint32)) = unat c mod 256"
  using unat_and_mask32 [of c 8] by (simp add: mask_eq_exp_minus_1)

lemma unat_and_f: "unat (c AND (0xf :: uint32)) = unat c mod 16"
  using unat_and_mask32 [of c 4] by (simp add: mask_eq_exp_minus_1)



lemma unat_drop_bit32: "unat (drop_bit n (w :: uint32)) = unat w div 2 ^ n"
  by (simp only: unat_drop_bit_eq) (simp add: drop_bit_eq_div)

lemma unat_push_bit32: "unat w * 2 ^ n < 2 ^ 32 \<Longrightarrow> unat (push_bit n (w :: uint32)) = unat w * 2 ^ n"
  unfolding unsigned_push_bit_eq by (simp add: push_bit_eq_mult take_bit_nat_eq_self)

lemma unat_add32: "unat x + unat y < 2 ^ 32 \<Longrightarrow> unat (x + y :: uint32) = unat x + unat y"
  using unat_add_lem [of x y] by simp

lemma unat_mult32: "unat x * unat y < 2 ^ 32 \<Longrightarrow> unat (x * y :: uint32) = unat x * unat y"
  using unat_mult_lem [of x y] by simp

lemma or_push_bit_add: "b < 2 ^ n \<Longrightarrow> push_bit n a OR b = a * 2 ^ n + (b::nat)"
proof -
  assume "b < 2 ^ n"
  then have b: "take_bit n b = b" by (simp add: take_bit_nat_eq_self)
  have "push_bit n a AND take_bit n b = 0"
    by (rule bit_eqI) (simp add: bit_simps)
  then have "push_bit n a + take_bit n b = push_bit n a OR take_bit n b"
    by (rule disjunctive_add_eq_or)
  then show ?thesis by (simp add: b push_bit_eq_mult)
qed

lemma unat_or_push_bit32:
  fixes a b :: uint32
  assumes "unat b < 2 ^ n" "unat a * 2 ^ n < 2 ^ 32"
  shows "unat (push_bit n a OR b) = unat a * 2 ^ n + unat b"
proof -
  have "unat (push_bit n a OR b) = unat (push_bit n a) OR unat b"
    by (simp only: unsigned_or_eq)
  also have "unat (push_bit n a) = push_bit n (unat a)"
    using unat_push_bit32 [OF assms(2)] by (simp only: push_bit_eq_mult)
  also have "push_bit n (unat a) OR unat b = unat a * 2 ^ n + unat b"
    using assms(1) by (rule or_push_bit_add)
  finally show ?thesis .
qed

lemma unat_chan:
  "unat (drop_bit 0 t AND (0xff :: uint32)) = blue_of t"
  "unat (drop_bit 8 t AND (0xff :: uint32)) = green_of t"
  "unat (drop_bit 16 t AND (0xff :: uint32)) = red_of t"
  "unat (drop_bit 24 t AND (0xff :: uint32)) = alpha_of t"
  by (simp_all only: unat_and_ff unat_drop_bit32 blue_of_def green_of_def red_of_def alpha_of_def
        power_0 div_by_1)

lemma chan_less: "blue_of t < 256" "green_of t < 256" "red_of t < 256" "alpha_of t < 256"
  by (simp_all add: blue_of_def green_of_def red_of_def alpha_of_def)

lemma unat_intensity:
  "unat (((drop_bit 0 t AND 0xff) + (drop_bit 8 t AND 0xff) + (drop_bit 16 t AND 0xff)) div 3 AND (0xff :: uint32))
     = intensity_of t"
proof -
  let ?r = "drop_bit 0 t AND (0xff :: uint32)" and ?g = "drop_bit 8 t AND (0xff :: uint32)"
    and ?b = "drop_bit 16 t AND (0xff :: uint32)"
  have rg: "unat (?r + ?g) = blue_of t + green_of t"
    using chan_less [of t] by (subst unat_add32) (simp_all only: unat_chan, simp)
  have "unat (?r + ?g + ?b) = blue_of t + green_of t + red_of t"
    using chan_less [of t] by (subst unat_add32) (simp_all only: unat_chan rg, simp)
  then have "unat ((?r + ?g + ?b) div 3) = (blue_of t + green_of t + red_of t) div 3"
    by (simp add: unat_div_distrib)
  moreover have "(blue_of t + green_of t + red_of t) div 3 < 256"
    using chan_less [of t] by simp
  ultimately show ?thesis
    by (simp only: unat_and_ff intensity_of_def) (simp add: ac_simps)
qed

lemma intensity_less: "intensity_of t < 256"
  using chan_less [of t] by (simp add: intensity_of_def)

lemma unat_quant:
  fixes c :: uint32
  assumes "unat c < 256" "m < 256"
  shows "unat ((c * of_nat m) div 255) = quant m (unat c)"
proof -
  have m: "unat (of_nat m :: uint32) = m"
    using assms(2) by (simp add: unat_of_nat)
  have "unat c * m < 256 * 256"
    using assms by (intro mult_strict_mono) simp_all
  then have "unat (c * of_nat m) = unat c * m"
    by (subst unat_mult32) (simp_all add: m)
  then show ?thesis
    by (simp add: unat_div_distrib quant_def)
qed

lemma quant_le: "v < 256 \<Longrightarrow> quant m v \<le> m"
proof -
  assume "v < 256"
  then have "v * m \<le> 255 * m"
    by (intro mult_le_mono1) simp
  then have "v * m div 255 \<le> 255 * m div 255"
    by (rule div_le_mono)
  then show ?thesis
    by (simp add: quant_def)
qed

lemma unat_quant15: "unat c < 256 \<Longrightarrow> unat (((c :: uint32) * 15) div 255) = quant 15 (unat c)"
  using unat_quant [of c 15] by simp



lemma I4_pack:
  fixes i1 i2 :: uint32
  assumes "unat i1 < 256" "unat i2 < 256"
  shows "(ucast (push_bit 4 ((i1 * 15) div 255) OR (((i2 * 15) div 255) AND 0xf)) :: byte)
         = word_of_nat (16 * quant 15 (unat i1) + quant 15 (unat i2))"
proof -
  have q1: "quant 15 (unat i1) \<le> 15" and q2: "quant 15 (unat i2) \<le> 15"
    using assms by (simp_all add: quant_le)
  have lo: "unat (((i2 * 15) div 255) AND 0xf) = quant 15 (unat i2)"
    using q2 assms by (simp only: unat_and_f unat_quant15) simp
  have "unat (push_bit 4 ((i1 * 15) div 255) OR (((i2 * 15) div 255) AND 0xf))
      = unat ((i1 * 15) div 255) * 2 ^ 4 + unat (((i2 * 15) div 255) AND 0xf)"
    using q1 q2 assms by (intro unat_or_push_bit32) (simp_all only: lo unat_quant15, simp_all)
  also have "\<dots> = 16 * quant 15 (unat i1) + quant 15 (unat i2)"
    using assms by (simp only: lo unat_quant15) simp
  finally have "word_of_nat (unat (push_bit 4 ((i1 * 15) div 255) OR (((i2 * 15) div 255) AND 0xf)))
      = (word_of_nat (16 * quant 15 (unat i1) + quant 15 (unat i2)) :: byte)"
    by (simp only:)
  then show ?thesis
    by (simp only: of_nat_unat)
qed

lemma IA4_pack:
  fixes i a :: uint32
  assumes "unat i < 256" "unat a < 256"
  shows "(ucast ((((i * 15) div 255) AND 0xf) OR push_bit 4 ((a * 15) div 255)) :: byte)
         = word_of_nat (16 * quant 15 (unat a) + quant 15 (unat i))"
  using I4_pack [OF assms(2) assms(1)] by (simp only: or.commute)

lemma unat_and_mask: "unat (c AND (mask n :: 'a::len word)) = unat c mod 2 ^ n"
proof -
  have "unat (c AND mask n) = unat (take_bit n c)"
    by (simp only: take_bit_eq_mask)
  also have "\<dots> = take_bit n (unat c)"
    by (simp only: unsigned_take_bit_eq)
  finally show ?thesis
    by (simp add: take_bit_eq_mod)
qed

lemma RGB565_pack:
  fixes r g b :: uint32
  assumes "unat r < 256" "unat g < 256" "unat b < 256"
  shows "unat (push_bit 0 (drop_bit 3 r) OR push_bit 5 (drop_bit 2 g) OR push_bit 11 (drop_bit 3 b))
         = 2048 * (unat b div 8) + 32 * (unat g div 4) + unat r div 8"
proof -
  have r: "unat (drop_bit 3 r) = unat r div 8" and g: "unat (drop_bit 2 g) = unat g div 4"
    and b: "unat (drop_bit 3 b) = unat b div 8"
    by (simp_all only: unat_drop_bit32) simp_all
  have gr: "unat (push_bit 5 (drop_bit 2 g) OR drop_bit 3 r) = unat g div 4 * 2 ^ 5 + unat r div 8"
    using assms by (subst unat_or_push_bit32) (simp_all only: r g, simp_all)
  have bounds: "unat g div 4 < 64" "unat r div 8 < 32" "unat b div 8 < 32"
    using assms by simp_all
  have lt: "unat (push_bit 5 (drop_bit 2 g) OR drop_bit 3 r) < 2 ^ 11"
    unfolding gr using bounds by simp
  have lt': "unat (drop_bit 3 b) * 2 ^ 11 < 2 ^ 32"
    unfolding b using bounds by simp
  have "unat (push_bit 11 (drop_bit 3 b) OR (push_bit 5 (drop_bit 2 g) OR drop_bit 3 r))
      = unat (drop_bit 3 b) * 2 ^ 11 + unat (push_bit 5 (drop_bit 2 g) OR drop_bit 3 r)"
    using lt lt' by (rule unat_or_push_bit32)
  also have "\<dots> = 2048 * (unat b div 8) + 32 * (unat g div 4) + unat r div 8"
    unfolding gr b by simp
  also have "push_bit 11 (drop_bit 3 b) OR (push_bit 5 (drop_bit 2 g) OR drop_bit 3 r)
      = push_bit 0 (drop_bit 3 r) OR push_bit 5 (drop_bit 2 g) OR push_bit 11 (drop_bit 3 b)"
    by (simp only: push_bit_0_id id_apply or.commute or.left_commute)
  finally show ?thesis .
qed

lemma be16_word:
  fixes w :: uint16
  shows "[ucast (drop_bit 8 w), ucast (w AND 0xff)] = be16_bytes (unat w)"
proof -
  have "unat (w AND 0xff) = unat w mod 256"
    using unat_and_mask [of w 8] by (simp add: mask_eq_exp_minus_1)
  then have "(word_of_nat (unat (w AND 0xff)) :: byte) = word_of_nat (unat w mod 256)"
    by (simp only:)
  then have lo: "(ucast (w AND 0xff) :: byte) = word_of_nat (unat w mod 256)"
    by (simp only: of_nat_unat)
  have "unat (drop_bit 8 w) = unat w div 256"
    by (simp only: unat_drop_bit_eq) (simp add: drop_bit_eq_div)
  then have "(word_of_nat (unat (drop_bit 8 w)) :: byte) = word_of_nat (unat w div 256)"
    by (simp only:)
  then have hi: "(ucast (drop_bit 8 w) :: byte) = word_of_nat (unat w div 256)"
    by (simp only: of_nat_unat)
  show ?thesis
    by (simp only: be16_bytes_def hi lo)
qed






lemma unat_blue: "unat (t AND (0xff :: uint32)) = blue_of t"
  by (simp only: unat_and_ff blue_of_def)



lemma length_overwrite: "p + length bs \<le> length out \<Longrightarrow> length (overwrite out p bs) = length out"
  by (simp add: overwrite_def)

lemma overwrite_Nil: "overwrite out p [] = out"
  by (simp add: overwrite_def)

lemma overwrite_append:
  assumes "p + length bs + length cs \<le> length out"
  shows "overwrite (overwrite out p bs) (p + length bs) cs = overwrite out p (bs @ cs)"
proof -
  have "take (p + length bs) (take p out @ bs @ drop (p + length bs) out) = take p out @ bs"
    using assms by simp
  moreover have "drop (p + length bs + length cs) (take p out @ bs @ drop (p + length bs) out)
      = drop (p + length bs + length cs) out"
    using assms by (simp add: add.commute)
  ultimately show ?thesis
    by (simp add: overwrite_def add.assoc)
qed

lemma overwrite_single: "p < length out \<Longrightarrow> overwrite out p [v] = out[p := v]"
  by (simp add: overwrite_def upd_conv_take_nth_drop)

lemma overwrite_all: "length bs \<le> n \<Longrightarrow> overwrite (replicate n z) 0 bs = bs @ replicate (n - length bs) z"
  by (simp add: overwrite_def)

lemma writes_for_loop:
  assumes "\<And>j. i \<le> j \<Longrightarrow> writes d (body j) (e j)"
  shows "writes d (for_loop i n step body) (concat (map e (loop_indices i n step)))"
  using assms
proof (induction i n step rule: loop_indices.induct)
  case (1 i n step)
  show ?case
  proof (cases "i < n \<and> 0 < step")
    case False
    have a: "loop_indices i n step = []"
      using False by (auto simp: loop_indices.simps [of i n step])
    have b: "for_loop i n step body s = Inr s" for s
      using False by (auto simp: for_loop.simps [of i n step body])
    show ?thesis
      by (simp add: writes_def a b overwrite_Nil)
  next
    case True
    have rest: "writes d (for_loop (i + step) n step body) (concat (map e (loop_indices (i + step) n step)))"
      using True "1.prems" by (intro "1.IH") auto
    have here: "writes d (body i) (e i)"
      using "1.prems" by simp
    let ?cs = "concat (map e (loop_indices (i + step) n step))"
    show ?thesis
      unfolding writes_def
    proof (intro allI impI)
      fix out :: "'a list" and p :: nat
      assume len: "p + length (concat (map e (loop_indices i n step))) \<le> length out"
      have idx: "loop_indices i n step = i # loop_indices (i + step) n step"
        using True by (simp add: loop_indices.simps [of i])
      from len have len': "p + length (e i) + length ?cs \<le> length out"
        by (simp add: idx)
      then have s1: "body i (out, int p + d) = Inr (overwrite out p (e i), int (p + length (e i)) + d)"
        using here by (simp add: writes_def)
      have "length (overwrite out p (e i)) = length out"
        using len' by (simp add: length_overwrite)
      then have s2: "for_loop (i + step) n step body (overwrite out p (e i), int (p + length (e i)) + d)
          = Inr (overwrite (overwrite out p (e i)) (p + length (e i)) ?cs,
                 int (p + length (e i) + length ?cs) + d)"
        using rest len' unfolding writes_def by (metis (no_types, lifting))
      show "for_loop i n step body (out, int p + d)
          = Inr (overwrite out p (concat (map e (loop_indices i n step))),
                 int (p + length (concat (map e (loop_indices i n step)))) + d)"
        using True s1 s2 len'
        by (simp add: for_loop.simps [of i] idx overwrite_append add.assoc)
    qed
  qed
qed

lemma loop_indices_ge: "j \<in> set (loop_indices i n step) \<Longrightarrow> i \<le> j"
proof (induction i n step rule: loop_indices.induct)
  case (1 i n step)
  then show ?case
    by (cases "i < n \<and> 0 < step") (auto simp: loop_indices.simps [of i n step])
qed

lemma concat_map_concat:
  "concat (map e (concat (map f xs))) = concat (map (\<lambda>x. concat (map e (f x))) xs)"
  by (induction xs) simp_all

lemma writes_blocks:
  assumes "\<And>x y. 0 \<le> x \<Longrightarrow> 0 \<le> y \<Longrightarrow> writes d (body y x) (e (x, y))"
  shows "writes d
           (for_loop 0 h bh (\<lambda>y1.
              for_loop 0 w bw (\<lambda>x1.
                for_loop y1 (y1 + bh) 1 (\<lambda>y.
                  for_loop x1 (x1 + bw) dx (\<lambda>x. body y x)))))
           (concat (map e (block_order bw bh dx w h)))"
proof -
  have inner: "writes d (for_loop x1 (x1 + bw) dx (\<lambda>x. body y x))
                 (concat (map (\<lambda>x. e (x, y)) (loop_indices x1 (x1 + bw) dx)))"
    if "0 \<le> x1" "0 \<le> y" for x1 y
    using that assms by (intro writes_for_loop) simp
  have rows: "writes d (for_loop y1 (y1 + bh) 1 (\<lambda>y. for_loop x1 (x1 + bw) dx (\<lambda>x. body y x)))
                (concat (map (\<lambda>y. concat (map (\<lambda>x. e (x, y)) (loop_indices x1 (x1 + bw) dx)))
                   (loop_indices y1 (y1 + bh) 1)))"
    if "0 \<le> x1" "0 \<le> y1" for x1 y1
    by (rule writes_for_loop) (use that inner in simp)
  have cols: "writes d (for_loop 0 w bw (\<lambda>x1.
                  for_loop y1 (y1 + bh) 1 (\<lambda>y. for_loop x1 (x1 + bw) dx (\<lambda>x. body y x))))
                (concat (map (\<lambda>x1.
                   concat (map (\<lambda>y. concat (map (\<lambda>x. e (x, y)) (loop_indices x1 (x1 + bw) dx)))
                     (loop_indices y1 (y1 + bh) 1)))
                   (loop_indices 0 w bw)))"
    if "0 \<le> y1" for y1
    by (rule writes_for_loop) (use that rows in simp)
  have "writes d
           (for_loop 0 h bh (\<lambda>y1.
              for_loop 0 w bw (\<lambda>x1.
                for_loop y1 (y1 + bh) 1 (\<lambda>y.
                  for_loop x1 (x1 + bw) dx (\<lambda>x. body y x)))))
           (concat (map (\<lambda>y1.
              concat (map (\<lambda>x1.
                   concat (map (\<lambda>y. concat (map (\<lambda>x. e (x, y)) (loop_indices x1 (x1 + bw) dx)))
                     (loop_indices y1 (y1 + bh) 1)))
                   (loop_indices 0 w bw)))
              (loop_indices 0 h bh)))"
    by (rule writes_for_loop) (use cols in simp)
  moreover have "concat (map e (block_order bw bh dx w h))
      = concat (map (\<lambda>y1.
              concat (map (\<lambda>x1.
                   concat (map (\<lambda>y. concat (map (\<lambda>x. e (x, y)) (loop_indices x1 (x1 + bw) dx)))
                     (loop_indices y1 (y1 + bh) 1)))
                   (loop_indices 0 w bw)))
              (loop_indices 0 h bh))"
    by (simp add: block_order_def concat_map_concat comp_def)
  ultimately show ?thesis
    by simp
qed

lemma length_loop_indices:
  "0 < step \<Longrightarrow> int (length (loop_indices i n step)) = max 0 ((n - i + step - 1) div step)"
proof (induction i n step rule: loop_indices.induct)
  case (1 i n step)
  show ?case
  proof (cases "i < n")
    case True
    then have "int (length (loop_indices i n step)) = 1 + max 0 ((n - (i + step) + step - 1) div step)"
      using 1 by (simp add: loop_indices.simps [of i n step])
    moreover have "(n - i + step - 1) div step = (n - i - 1) div step + 1"
      using "1.prems" div_add_self2 [of step "n - i - 1"] by (simp add: algebra_simps)
    moreover have "0 \<le> (n - i - 1) div step"
      using True "1.prems" by (simp add: pos_imp_zdiv_nonneg_iff)
    ultimately show ?thesis
      by simp
  next
    case False
    then have "n - i + step - 1 < step"
      by simp
    then have "(n - i + step - 1) div step \<le> (step - 1) div step"
      using "1.prems" by (intro zdiv_mono1) simp_all
    then have "(n - i + step - 1) div step \<le> 0"
      using "1.prems" by (simp add: div_pos_pos_trivial)
    then show ?thesis
      using False by (simp add: loop_indices.simps [of i n step])
  qed
qed

lemma index_bound:
  fixes x y w h :: int
  assumes "0 \<le> x" "x < w" "0 \<le> y" "y < h"
  shows "0 \<le> x + y * w" and "x + y * w < w * h"
proof -
  show "0 \<le> x + y * w"
    using assms by simp
  have "y * w \<le> (h - 1) * w"
    using assms by (intro mult_right_mono) simp_all
  then show "x + y * w < w * h"
    using assms by (simp add: algebra_simps)
qed

lemma load_ok: "0 \<le> i \<Longrightarrow> i < int (length s) \<Longrightarrow> load s i = Inr (s ! nat i)"
  by (simp add: load_def)

lemma writes_store1:
  "writes 0 (\<lambda>(output, inp). case store output inp v of Inl e \<Rightarrow> Inl e
                              | Inr output' \<Rightarrow> Inr (output', inp + 1)) [v]"
  by (simp add: writes_def store_def overwrite_single)

lemma overwrite_two: "Suc p < length out \<Longrightarrow> overwrite out p [u, v] = out[p := u, Suc p := v]"
proof -
  assume a: "Suc p < length out"
  have "overwrite out p ([u] @ [v]) = overwrite (overwrite out p [u]) (p + length [u]) [v]"
    using a by (subst overwrite_append) simp_all
  then show ?thesis
    using a by (simp add: overwrite_single)
qed

lemma writes_store2:
  "writes (- 1) (\<lambda>(output, z).
      let z = z + 1
      in (case store output z u of
            Inl e \<Rightarrow> Inl e
          | Inr output' \<Rightarrow>
             (let z = z + 1
              in (case store output' z v of
                    Inl e \<Rightarrow> Inl e
                  | Inr output'' \<Rightarrow> Inr (output'', z))))) [u, v]"
  by (simp add: writes_def store_def overwrite_two Let_def nat_add_distrib)




lemma ToIA4_pixel_eq:
  assumes "0 \<le> x" "0 \<le> y" "w * h \<le> int (length raw)"
  shows "ToIA4_pixel raw w h y x = Inr (hd (IA4_emit raw w h (x, y)))"
proof (cases "x < w \<and> y < h")
  case False
  then show ?thesis
    by (auto simp: ToIA4_pixel_def IA4_emit_def)
next
  case True
  then have i: "0 \<le> x + y * w" "x + y * w < int (length raw)"
    using index_bound [of x w y h] assms by simp_all
  let ?t = "raw ! nat (x + y * w)"
  have pack: "(ucast (((((((drop_bit 0 ?t AND 0xff) + (drop_bit 8 ?t AND 0xff) + (drop_bit 16 ?t AND 0xff)) div 3 AND 0xff) * 15) div 255) AND 0xf)
          OR push_bit 4 (((drop_bit 24 ?t AND 0xff) * 15) div 255)) :: byte)
        = word_of_nat (spec_IA4 ?t)"
    using chan_less [of ?t]
    by (subst IA4_pack) (simp_all only: unat_intensity intensity_less spec_IA4_def unat_chan)
  have nb: "\<not> (y \<ge> h \<or> x \<ge> w)"
    using True by simp
  have "ToIA4_pixel raw w h y x = Inr (word_of_nat (spec_IA4 ?t))"
    unfolding ToIA4_pixel_def
    by (simp only: nb if_False load_ok [OF i] sum.case Let_def pack)
  then show ?thesis
    using True by (simp add: IA4_emit_def)
qed

lemma ToIA4_body_writes:
  assumes "0 \<le> x" "0 \<le> y" "w * h \<le> int (length raw)"
  shows "writes 0 (ToIA4_body raw w h y x) (IA4_emit raw w h (x, y))"
proof -
  have "IA4_emit raw w h (x, y) = [hd (IA4_emit raw w h (x, y))]"
    by (simp add: IA4_emit_def)
  then show ?thesis
    using writes_store1 [of "hd (IA4_emit raw w h (x, y))"] ToIA4_pixel_eq [OF assms]
    by (simp add: ToIA4_body_def)
qed

lemma code_RGB565_less: "code_RGB565 t < 65536"
proof -
  have "red_of t div 8 < 32" "green_of t div 4 < 64" "blue_of t div 8 < 32"
    using chan_less [of t] by simp_all
  then show ?thesis
    by (simp add: code_RGB565_def)
qed

lemma ToRGB565_pixel_eq:
  assumes "0 \<le> x" "0 \<le> y" "w * h \<le> int (length raw)"
  shows "ToRGB565_pixel raw w h y x
         = Inr (if x < w \<and> y < h then word_of_nat (code_RGB565 (raw ! nat (x + y * w))) else 0)"
proof (cases "x < w \<and> y < h")
  case False
  then show ?thesis
    by (auto simp: ToRGB565_pixel_def)
next
  case True
  then have i: "0 \<le> x + y * w" "x + y * w < int (length raw)"
    using index_bound [of x w y h] assms by simp_all
  let ?t = "raw ! nat (x + y * w)"
  let ?v = "push_bit 0 (drop_bit 3 (drop_bit 0 ?t AND 0xff)) OR push_bit 5 (drop_bit 2 (drop_bit 8 ?t AND 0xff))
              OR push_bit 11 (drop_bit 3 (drop_bit 16 ?t AND 0xff))"
  have "unat ?v = code_RGB565 ?t"
    using chan_less [of ?t]
    by (subst RGB565_pack) (simp_all only: unat_chan code_RGB565_def)
  then have "(word_of_nat (unat ?v) :: uint16) = word_of_nat (code_RGB565 ?t)"
    by (simp only:)
  then have pack: "(ucast ?v :: uint16) = word_of_nat (code_RGB565 ?t)"
    by (simp only: of_nat_unat)
  have nb: "\<not> (y \<ge> h \<or> x \<ge> w)"
    using True by simp
  have "ToRGB565_pixel raw w h y x = Inr (word_of_nat (code_RGB565 ?t))"
    unfolding ToRGB565_pixel_def
    by (simp only: nb if_False load_ok [OF i] sum.case Let_def pack)
  then show ?thesis
    using True by simp
qed

lemma writes_store2_eq:
  assumes "[u, v] = bs"
  shows "writes (- 1) (\<lambda>(output, z).
      let z = z + 1
      in (case store output z u of
            Inl e \<Rightarrow> Inl e
          | Inr output' \<Rightarrow>
             (let z = z + 1
              in (case store output' z v of
                    Inl e \<Rightarrow> Inl e
                  | Inr output'' \<Rightarrow> Inr (output'', z))))) bs"
  using writes_store2 [where u = u and v = v] unfolding assms .

lemma unat_word_of_nat16: "v < 65536 \<Longrightarrow> unat (word_of_nat v :: uint16) = v"
  by (simp add: unat_of_nat)

lemma ToRGB565_body_writes:
  assumes "0 \<le> x" "0 \<le> y" "w * h \<le> int (length raw)"
  shows "writes (- 1) (ToRGB565_body raw w h y x) (RGB565_emit raw w h (x, y))"
proof -
  let ?np = "if x < w \<and> y < h then word_of_nat (code_RGB565 (raw ! nat (x + y * w))) else (0 :: uint16)"
  have "[ucast (drop_bit 8 ?np), ucast (?np AND 0xff)] = be16_bytes (unat ?np)"
    by (rule be16_word)
  also have "\<dots> = RGB565_emit raw w h (x, y)"
    using code_RGB565_less [of "raw ! nat (x + y * w)"]
    by (simp add: RGB565_emit_def unat_word_of_nat16 be16_bytes_def)
  finally have "writes (- 1) (\<lambda>(output, z).
      let z = z + 1
      in (case store output z (ucast (drop_bit 8 ?np)) of
            Inl e \<Rightarrow> Inl e
          | Inr output' \<Rightarrow>
             (let z = z + 1
              in (case store output' z (ucast (?np AND 0xff)) of
                    Inl e \<Rightarrow> Inl e
                  | Inr output'' \<Rightarrow> Inr (output'', z))))) (RGB565_emit raw w h (x, y))"
    by (rule writes_store2_eq)
  then show ?thesis
    unfolding ToRGB565_body_def
    by (simp only: ToRGB565_pixel_eq [OF assms] sum.case)
qed


lemma smod_nonneg: "0 \<le> a \<Longrightarrow> 0 < b \<Longrightarrow> a smod b = a mod (b :: int)"
  by (cases "a = 0") (simp_all add: smod_int_alt_def)

lemma addPadding_4: "0 \<le> n \<Longrightarrow> addPadding n 4 = 4 * ((n + 3) div 4)"
  by (simp add: addPadding_def smod_nonneg) presburger

lemma addPadding_8: "0 \<le> n \<Longrightarrow> addPadding n 8 = 8 * ((n + 7) div 8)"
  by (simp add: addPadding_def smod_nonneg) presburger

lemma length_concat_map_const:
  "(\<And>x. x \<in> set xs \<Longrightarrow> length (f x) = k) \<Longrightarrow> length (concat (map f xs)) = length xs * k"
  by (induction xs) simp_all


lemma length_loop_indices_nat:
  "0 < step \<Longrightarrow> length (loop_indices i n step) = nat ((n - i + step - 1) div step)"
  using length_loop_indices [of step i n] by linarith

lemma length_block_order:
  assumes "0 < bw" "0 < bh" "0 < dx"
  shows "length (block_order bw bh dx w h)
         = nat ((h + bh - 1) div bh) * (nat ((w + bw - 1) div bw) * (nat bh * nat ((bw + dx - 1) div dx)))"
proof -
  have row: "length (map (\<lambda>x. (x, y)) (loop_indices x1 (x1 + bw) dx)) = nat ((bw + dx - 1) div dx)" for x1 y
    using assms by (simp add: length_loop_indices_nat)
  have block: "length (concat (map (\<lambda>y. map (\<lambda>x. (x, y)) (loop_indices x1 (x1 + bw) dx))
                  (loop_indices y1 (y1 + bh) 1))) = nat bh * nat ((bw + dx - 1) div dx)" for x1 y1
    by (subst length_concat_map_const [where k = "nat ((bw + dx - 1) div dx)"])
       (simp_all add: row length_loop_indices_nat del: length_map)
  have blocks: "length (concat (map (\<lambda>x1. concat (map (\<lambda>y. map (\<lambda>x. (x, y)) (loop_indices x1 (x1 + bw) dx))
                  (loop_indices y1 (y1 + bh) 1))) (loop_indices 0 w bw)))
        = nat ((w + bw - 1) div bw) * (nat bh * nat ((bw + dx - 1) div dx))" for y1
    using assms
    by (subst length_concat_map_const [where k = "nat bh * nat ((bw + dx - 1) div dx)"])
       (simp_all add: block length_loop_indices_nat)
  show ?thesis
    unfolding block_order_def using assms
    by (subst length_concat_map_const [where k = "nat ((w + bw - 1) div bw) * (nat bh * nat ((bw + dx - 1) div dx))"])
       (simp_all add: blocks length_loop_indices_nat)
qed

lemma writes_run:
  assumes "writes d c bs" "length bs \<le> n"
  shows "c (replicate n z, d) = Inr (bs @ replicate (n - length bs) z, int (length bs) + d)"
  using assms(1) [unfolded writes_def, rule_format, of 0 "replicate n z"] assms(2)
  by (simp add: overwrite_all)

lemma make_slice_ok: "0 \<le> n \<Longrightarrow> make_slice n = Inr (replicate (nat n) 0)"
  by (simp add: make_slice_def)

lemma length_be16_bytes: "length (be16_bytes v) = 2"
  by (simp add: be16_bytes_def)

lemma blocks_nonneg: "0 \<le> (n :: int) \<Longrightarrow> 0 \<le> (n + 3) div 4" "0 \<le> (n :: int) \<Longrightarrow> 0 \<le> (n + 7) div 8"
  by simp_all


lemma buffer_4x4:
  assumes "0 \<le> w" "0 \<le> h"
  shows "nat (addPadding w 4 * addPadding h 4 * 2) = length (block_order 4 4 1 w h) * 2"
proof -
  obtain a b where a: "(w + 3) div 4 = int a" and b: "(h + 3) div 4 = int b"
    using assms blocks_nonneg(1) [of w] blocks_nonneg(1) [of h] by (metis nonneg_int_cases)
  have "addPadding w 4 * addPadding h 4 * 2 = int (b * (a * (4 * 4)) * 2)"
    using assms by (simp add: addPadding_4 a b)
  moreover have "length (block_order 4 4 1 w h) = b * (a * (4 * 4))"
    using a b by (simp add: length_block_order add.commute)
  ultimately show ?thesis
    by (simp only: nat_int)
qed

lemma buffer_8x4:
  assumes "0 \<le> w" "0 \<le> h"
  shows "nat (addPadding w 8 * addPadding h 4) = length (block_order 8 4 1 w h)"
proof -
  obtain a b where a: "(w + 7) div 8 = int a" and b: "(h + 3) div 4 = int b"
    using assms blocks_nonneg(2) [of w] blocks_nonneg(1) [of h] by (metis nonneg_int_cases)
  have "addPadding w 8 * addPadding h 4 = int (b * (a * (4 * 8)))"
    using assms by (simp add: addPadding_4 addPadding_8 a b)
  moreover have "length (block_order 8 4 1 w h) = b * (a * (4 * 8))"
    using a b by (simp add: length_block_order add.commute)
  ultimately show ?thesis
    by (simp only: nat_int)
qed


lemma ToRGB565_encode_eq:
  assumes "0 \<le> w" "0 \<le> h" "w * h \<le> int (length raw)"
  shows "ToRGB565_encode raw w h = Inr (concat (map (RGB565_emit raw w h) (block_order 4 4 1 w h)))"
proof -
  let ?bs = "concat (map (RGB565_emit raw w h) (block_order 4 4 1 w h))"
  let ?n = "nat (addPadding w 4 * addPadding h 4 * 2)"
  have "length ?bs = length (block_order 4 4 1 w h) * 2"
    by (rule length_concat_map_const) (auto simp: RGB565_emit_def length_be16_bytes)
  then have len: "length ?bs = ?n"
    using buffer_4x4 [OF assms(1,2)] by simp
  have "writes (- 1)
          (for_loop 0 h 4 (\<lambda>y1. for_loop 0 w 4 (\<lambda>x1. for_loop y1 (y1 + 4) 1 (\<lambda>y.
             for_loop x1 (x1 + 4) 1 (\<lambda>x. ToRGB565_body raw w h y x))))) ?bs"
    by (rule writes_blocks) (rule ToRGB565_body_writes [OF _ _ assms(3)])
  from writes_run [OF this, of ?n 0] len
  have run: "for_loop 0 h 4 (\<lambda>y1. for_loop 0 w 4 (\<lambda>x1. for_loop y1 (y1 + 4) 1 (\<lambda>y.
             for_loop x1 (x1 + 4) 1 (\<lambda>x. ToRGB565_body raw w h y x)))) (replicate ?n 0, - 1)
        = Inr (?bs, int ?n - 1)"
    by simp
  have "0 \<le> addPadding w 4 * addPadding h 4 * 2"
    using assms by (simp add: addPadding_4)
  then show ?thesis
    unfolding ToRGB565_encode_def by (simp only: make_slice_ok run sum.case prod.case)
qed


lemma ToIA4_encode_eq:
  assumes "0 \<le> w" "0 \<le> h" "w * h \<le> int (length raw)"
  shows "ToIA4_encode raw w h = Inr (concat (map (IA4_emit raw w h) (block_order 8 4 1 w h)))"
proof -
  let ?bs = "concat (map (IA4_emit raw w h) (block_order 8 4 1 w h))"
  let ?n = "nat (addPadding w 8 * addPadding h 4)"
  have "length ?bs = length (block_order 8 4 1 w h) * 1"
    by (rule length_concat_map_const) (auto simp: IA4_emit_def)
  then have len: "length ?bs = ?n"
    using buffer_8x4 [OF assms(1,2)] by simp
  have "writes 0
          (for_loop 0 h 4 (\<lambda>y1. for_loop 0 w 8 (\<lambda>x1. for_loop y1 (y1 + 4) 1 (\<lambda>y.
             for_loop x1 (x1 + 8) 1 (\<lambda>x. ToIA4_body raw w h y x))))) ?bs"
    by (rule writes_blocks) (rule ToIA4_body_writes [OF _ _ assms(3)])
  from writes_run [OF this, of ?n 0] len
  have run: "for_loop 0 h 4 (\<lambda>y1. for_loop 0 w 8 (\<lambda>x1. for_loop y1 (y1 + 4) 1 (\<lambda>y.
             for_loop x1 (x1 + 8) 1 (\<lambda>x. ToIA4_body raw w h y x)))) (replicate ?n 0, 0)
        = Inr (?bs, int ?n)"
    by simp
  have "0 \<le> addPadding w 8 * addPadding h 4"
    using assms by (simp add: addPadding_4 addPadding_8)
  then show ?thesis
    unfolding ToIA4_encode_def by (simp only: make_slice_ok run sum.case prod.case)
qed


lemma imageToRGBA_body_writes: "writes 0 (imageToRGBA_body img y x) [texel img x y]"
proof -
  obtain r g b a where c: "At_RGBA img x y = (r, g, b, a)"
    by (cases "At_RGBA img x y") auto
  have "imageToRGBA_body img y x
      = (\<lambda>(raw, idx). case store raw idx (texel img x y) of Inl e \<Rightarrow> Inl e
                        | Inr raw' \<Rightarrow> Inr (raw', idx + 1))"
    by (simp add: imageToRGBA_body_def texel_def c ARGB_def)
  then show ?thesis
    using writes_store1 [of "texel img x y"] by simp
qed

lemma loop_indices_upto: "loop_indices i n 1 = [i..n - 1]"
proof (induction i n "1 :: int" rule: loop_indices.induct)
  case (1 i n)
  show ?case
  proof (cases "i < n")
    case True
    then have "[i..n - 1] = i # [i + 1..n - 1]"
      by (simp add: upto_rec1)
    then show ?thesis
      using True 1 by (simp add: loop_indices.simps [of i n 1])
  next
    case False
    then show ?thesis
      by (simp add: loop_indices.simps [of i n 1])
  qed
qed

lemma nth_concat_uniform:
  assumes "\<And>r. r \<in> set rows \<Longrightarrow> length r = k" "i < length rows" "j < k"
  shows "concat rows ! (i * k + j) = rows ! i ! j"
  using assms
proof (induction rows arbitrary: i)
  case Nil
  then show ?case by simp
next
  case (Cons r rows)
  have k: "length r = k"
    using Cons.prems(1) by simp
  show ?case
  proof (cases i)
    case 0
    then show ?thesis
      using Cons.prems(3) k by (simp add: nth_append)
  next
    case (Suc i')
    then have "concat rows ! (i' * k + j) = rows ! i' ! j"
      using Cons.prems by (intro Cons.IH) simp_all
    then show ?thesis
      using Suc k by (simp add: nth_append)
  qed
qed

lemma imageToRGBA_eq:
  assumes "Min_X img \<le> Max_X img" "Min_Y img \<le> Max_Y img"
  shows "imageToRGBA img = Inr (raster img)"
    and "int (length (raster img)) = (Max_X img - Min_X img) * (Max_Y img - Min_Y img)"
proof -
  let ?n = "nat ((Max_X img - Min_X img) * (Max_Y img - Min_Y img))"
  have "length (raster img) = length [Min_Y img..Max_Y img - 1] * nat (Max_X img - Min_X img)"
    unfolding raster_def by (rule length_concat_map_const) simp
  then have "length (raster img) = nat (Max_Y img - Min_Y img) * nat (Max_X img - Min_X img)"
    by simp
  also have "\<dots> = ?n"
    using assms by (simp add: nat_mult_distrib mult.commute)
  finally have len: "length (raster img) = ?n" .
  then show "int (length (raster img)) = (Max_X img - Min_X img) * (Max_Y img - Min_Y img)"
    using assms by simp
  have "writes 0 (for_loop (Min_X img) (Max_X img) 1 (\<lambda>x. imageToRGBA_body img y x))
          (concat (map (\<lambda>x. [texel img x y]) (loop_indices (Min_X img) (Max_X img) 1)))" for y
    by (rule writes_for_loop) (rule imageToRGBA_body_writes)
  then have "writes 0 (for_loop (Min_Y img) (Max_Y img) 1
                (\<lambda>y. for_loop (Min_X img) (Max_X img) 1 (\<lambda>x. imageToRGBA_body img y x)))
          (concat (map (\<lambda>y. concat (map (\<lambda>x. [texel img x y]) (loop_indices (Min_X img) (Max_X img) 1)))
             (loop_indices (Min_Y img) (Max_Y img) 1)))"
    by (rule writes_for_loop)
  moreover have "concat (map (\<lambda>y. concat (map (\<lambda>x. [texel img x y]) (loop_indices (Min_X img) (Max_X img) 1)))
             (loop_indices (Min_Y img) (Max_Y img) 1)) = raster img"
    by (simp add: raster_def loop_indices_upto)
  ultimately have "writes 0 (for_loop (Min_Y img) (Max_Y img) 1
                (\<lambda>y. for_loop (Min_X img) (Max_X img) 1 (\<lambda>x. imageToRGBA_body img y x))) (raster img)"
    by simp
  from writes_run [OF this, of ?n 0] len
  have run: "for_loop (Min_Y img) (Max_Y img) 1
                (\<lambda>y. for_loop (Min_X img) (Max_X img) 1 (\<lambda>x. imageToRGBA_body img y x)) (replicate ?n 0, 0)
        = Inr (raster img, int ?n)"
    by simp
  have "0 \<le> (Max_X img - Min_X img) * (Max_Y img - Min_Y img)"
    using assms by simp
  then show "imageToRGBA img = Inr (raster img)"
    unfolding imageToRGBA_def by (simp only: make_slice_ok run sum.case prod.case)
qed

lemma raster_nth:
  assumes "Min_X img = 0" "Min_Y img = 0" "0 \<le> x" "x < Max_X img" "0 \<le> y" "y < Max_Y img"
  shows "raster img ! nat (x + y * Max_X img) = texel img x y"
proof -
  let ?rows = "map (\<lambda>y. map (\<lambda>x. texel img x y) [0..Max_X img - 1]) [0..Max_Y img - 1]"
  have "concat ?rows ! (nat y * nat (Max_X img) + nat x) = ?rows ! nat y ! nat x"
    using assms by (intro nth_concat_uniform) auto
  moreover have "nat (x + y * Max_X img) = nat y * nat (Max_X img) + nat x"
    using assms by (simp add: nat_add_distrib nat_mult_distrib)
  moreover have "?rows ! nat y ! nat x = texel img x y"
    using assms by simp
  ultimately show ?thesis
    by (simp add: raster_def assms(1,2))
qed

lemma unat_and_ff_chan8: "unat (c AND (0xff :: uint32)) = chan8 c"
  by (simp only: unat_and_ff chan8_def)

lemma ff32: "(0xff :: uint32) = mask 8"
  by (simp add: mask_eq_exp_minus_1)

lemma ARGB_b: "drop_bit 0 (ARGB a r g b) AND 0xff = b AND 0xff"
  unfolding ARGB_def ff32
  by (rule bit_word_eqI) (auto simp: bit_simps)

lemma ARGB_g: "drop_bit 8 (ARGB a r g b) AND 0xff = g AND 0xff"
  unfolding ARGB_def ff32
  by (rule bit_word_eqI) (auto simp: bit_simps)

lemma ARGB_r: "drop_bit 16 (ARGB a r g b) AND 0xff = r AND 0xff"
  unfolding ARGB_def ff32
  by (rule bit_word_eqI) (auto simp: bit_simps)

lemma ARGB_a: "drop_bit 24 (ARGB a r g b) AND 0xff = a AND 0xff"
  unfolding ARGB_def ff32
  by (rule bit_word_eqI) (auto simp: bit_simps)

lemma channels_ARGB:
  "alpha_of (ARGB a r g b) = chan8 a" "red_of (ARGB a r g b) = chan8 r"
  "green_of (ARGB a r g b) = chan8 g" "blue_of (ARGB a r g b) = chan8 b"
proof -
  show "alpha_of (ARGB a r g b) = chan8 a"
    by (simp only: unat_chan(4) [symmetric] ARGB_a unat_and_ff_chan8)
  show "red_of (ARGB a r g b) = chan8 r"
    by (simp only: unat_chan(3) [symmetric] ARGB_r unat_and_ff_chan8)
  show "green_of (ARGB a r g b) = chan8 g"
    by (simp only: unat_chan(2) [symmetric] ARGB_g unat_and_ff_chan8)
  show "blue_of (ARGB a r g b) = chan8 b"
    by (simp only: unat_chan(1) [symmetric] ARGB_b unat_and_ff_chan8)
qed

lemma channels_texel:
  "alpha_of (texel img x y) = alpha_at img x y" "red_of (texel img x y) = red_at img x y"
  "green_of (texel img x y) = green_at img x y" "blue_of (texel img x y) = blue_at img x y"
  by (cases "At_RGBA img x y"; simp add: texel_def channels_ARGB alpha_at_def red_at_def green_at_def blue_at_def)+

lemma intensity_texel: "intensity_of (texel img x y) = intensity_at img x y"
  by (simp add: intensity_of_def intensity_at_def channels_texel)


lemma block_order_nonneg:
  assumes "(x, y) \<in> set (block_order bw bh dx w h)"
  shows "0 \<le> x \<and> 0 \<le> y"
proof -
  from assms obtain y1 x1 where "y1 \<in> set (loop_indices 0 h bh)" "x1 \<in> set (loop_indices 0 w bw)"
    "y \<in> set (loop_indices y1 (y1 + bh) 1)" "x \<in> set (loop_indices x1 (x1 + bw) dx)"
    by (auto simp: block_order_def)
  then show ?thesis
    using loop_indices_ge [of y1 0 h bh] loop_indices_ge [of x1 0 w bw]
      loop_indices_ge [of y y1 "y1 + bh" 1] loop_indices_ge [of x x1 "x1 + bw" dx]
    by simp
qed

lemma raster_origin:
  assumes "Min_X img = 0" "Min_Y img = 0" "0 \<le> Max_X img" "0 \<le> Max_Y img"
  shows "imageToRGBA img = Inr (raster img)" and "int (length (raster img)) = Max_X img * Max_Y img"
  using imageToRGBA_eq [of img] assms by simp_all


lemma concat_singletons: "(\<And>p. p \<in> set ps \<Longrightarrow> e p = [f p]) \<Longrightarrow> concat (map e ps) = map f ps"
  by (induction ps) simp_all


lemma IA4_emit_image:
  assumes "Min_X img = 0" "Min_Y img = 0" "0 \<le> x" "0 \<le> y"
  shows "IA4_emit (raster img) (Max_X img) (Max_Y img) (x, y) = [IA4_byte_at img (x, y)]"
proof (cases "x < Max_X img \<and> y < Max_Y img")
  case False
  then show ?thesis
    by (auto simp: IA4_emit_def IA4_byte_at_def)
next
  case True
  have "raster img ! nat (x + y * Max_X img) = texel img x y"
    using True assms by (intro raster_nth) simp_all
  then show ?thesis
    using True by (simp add: IA4_emit_def IA4_byte_at_def spec_IA4_def intensity_texel channels_texel)
qed

lemma RGB565_emit_image:
  assumes "Min_X img = 0" "Min_Y img = 0" "0 \<le> x" "0 \<le> y"
  shows "RGB565_emit (raster img) (Max_X img) (Max_Y img) (x, y) = RGB565_bytes_at img (x, y)"
proof (cases "x < Max_X img \<and> y < Max_Y img")
  case False
  then show ?thesis
    by (auto simp: RGB565_emit_def RGB565_bytes_at_def)
next
  case True
  have "raster img ! nat (x + y * Max_X img) = texel img x y"
    using True assms by (intro raster_nth) simp_all
  then show ?thesis
    using True
    by (simp add: RGB565_emit_def RGB565_bytes_at_def code_RGB565_def RGB565_value_at_def channels_texel)
qed



lemma ToIA4_image:
  assumes "Min_X img = 0" "Min_Y img = 0" "0 \<le> Max_X img" "0 \<le> Max_Y img"
  shows "ToIA4 img = Inr (write_TPL (makeTPL IA4 (Max_X img) (Max_Y img))
                          @ map (IA4_byte_at img) (block_order 8 4 1 (Max_X img) (Max_Y img)))"
proof -
  have "concat (map (IA4_emit (raster img) (Max_X img) (Max_Y img)) (block_order 8 4 1 (Max_X img) (Max_Y img)))
      = map (IA4_byte_at img) (block_order 8 4 1 (Max_X img) (Max_Y img))"
  proof (rule concat_singletons)
    fix p assume "p \<in> set (block_order 8 4 1 (Max_X img) (Max_Y img))"
    then show "IA4_emit (raster img) (Max_X img) (Max_Y img) p = [IA4_byte_at img p]"
      using block_order_nonneg [of "fst p" "snd p"] IA4_emit_image [OF assms(1,2), of "fst p" "snd p"]
      by simp
  qed
  moreover have "ToIA4_encode (raster img) (Max_X img) (Max_Y img)
      = Inr (concat (map (IA4_emit (raster img) (Max_X img) (Max_Y img)) (block_order 8 4 1 (Max_X img) (Max_Y img))))"
    using assms raster_origin(2) [OF assms] by (intro ToIA4_encode_eq) simp_all
  ultimately show ?thesis
    by (simp add: ToIA4_def raster_origin(1) [OF assms] makeTPLHeader_def)
qed

lemma ToRGB565_image:
  assumes "Min_X img = 0" "Min_Y img = 0" "0 \<le> Max_X img" "0 \<le> Max_Y img"
  shows "ToRGB565 img = Inr (write_TPL (makeTPL RGB565 (Max_X img) (Max_Y img))
                          @ concat (map (RGB565_bytes_at img) (block_order 4 4 1 (Max_X img) (Max_Y img))))"
proof -
  have "map (RGB565_emit (raster img) (Max_X img) (Max_Y img)) (block_order 4 4 1 (Max_X img) (Max_Y img))
      = map (RGB565_bytes_at img) (block_order 4 4 1 (Max_X img) (Max_Y img))"
  proof (rule map_cong [OF refl])
    fix p assume "p \<in> set (block_order 4 4 1 (Max_X img) (Max_Y img))"
    then show "RGB565_emit (raster img) (Max_X img) (Max_Y img) p = RGB565_bytes_at img p"
      using block_order_nonneg [of "fst p" "snd p"] RGB565_emit_image [OF assms(1,2), of "fst p" "snd p"]
      by simp
  qed
  then have "concat (map (RGB565_emit (raster img) (Max_X img) (Max_Y img)) (block_order 4 4 1 (Max_X img) (Max_Y img)))
      = concat (map (RGB565_bytes_at img) (block_order 4 4 1 (Max_X img) (Max_Y img)))"
    by (simp only:)
  moreover have "ToRGB565_encode (raster img) (Max_X img) (Max_Y img)
      = Inr (concat (map (RGB565_emit (raster img) (Max_X img) (Max_Y img)) (block_order 4 4 1 (Max_X img) (Max_Y img))))"
    using assms raster_origin(2) [OF assms] by (intro ToRGB565_encode_eq) simp_all
  ultimately show ?thesis
    by (simp add: ToRGB565_def raster_origin(1) [OF assms] makeTPLHeader_def)
qed


lemma converter_unfold:
  assumes "(conv, fmt, enc) \<in> set converters"
  shows "conv img =
     (case imageToRGBA img of
        Inl e \<Rightarrow> Inl e
      | Inr raw \<Rightarrow>
         (case enc raw (Max_X img) (Max_Y img) of
            Inl e \<Rightarrow> Inl e
          | Inr output \<Rightarrow> makeTPLHeader output fmt (Max_X img) (Max_Y img)))"
  using assms by (auto simp: converters_def ToI4_def ToIA4_def ToRGB5A3_def ToRGB565_def)

lemma converter_success:
  assumes "(conv, fmt, enc) \<in> set converters" "conv img = Inr blob"
  shows "\<exists>raw payload. imageToRGBA img = Inr raw \<and> enc raw (Max_X img) (Max_Y img) = Inr payload
           \<and> blob = write_TPL (makeTPL fmt (Max_X img) (Max_Y img)) @ payload"
  using assms(2) unfolding converter_unfold [OF assms(1)]
  by (auto simp: makeTPLHeader_def split: sum.splits)

lemma length_be: "length (be16 v) = 2" "length (be32 w) = 4"
  by (simp_all add: be16_def be32_def)

lemma length_write_FileHeader: "length (write_FileHeader h) = 12"
  by (simp add: write_FileHeader_def length_be)

lemma length_write_ImageHeader: "length (write_ImageHeader h) = 36"
  by (simp add: write_ImageHeader_def length_be)

lemma length_write_TPL: "length (write_TPL t) = 56"
  by (simp add: write_TPL_def length_write_FileHeader length_write_ImageHeader length_be)

lemma be32_consts:
  "be32 TPLMagic = [0x00, 0x20, 0xAF, 0x30]" "be32 1 = [0, 0, 0, 1]" "be32 0x0C = [0, 0, 0, 0x0C]"
  "be32 20 = [0, 0, 0, 20]" "be32 0 = [0, 0, 0, 0]" "be32 64 = [0, 0, 0, 64]"
  by (simp_all add: be32_def TPLMagic_def drop_bit_eq_div)

lemma be32_formats:
  "be32 I4 = [0, 0, 0, 0]" "be32 IA4 = [0, 0, 0, 2]" "be32 RGB565 = [0, 0, 0, 4]" "be32 RGB5A3 = [0, 0, 0, 5]"
  by (simp_all add: be32_def I4_def IA4_def RGB565_def RGB5A3_def drop_bit_eq_div)

lemma be16_of_int: "be16 (word_of_int k) = be16_bytes (nat (k mod 65536))"
proof -
  let ?w = "word_of_int k :: uint16"
  have u: "unat ?w = nat (k mod 65536)"
    by (simp add: unat_eq_nat_uint uint_word_of_int_eq take_bit_eq_mod)
  have "unat (drop_bit 8 ?w) = unat ?w div 256"
    by (simp only: unat_drop_bit_eq) (simp add: drop_bit_eq_div)
  then have "(word_of_nat (unat (drop_bit 8 ?w)) :: byte) = word_of_nat (unat ?w div 256)"
    by (simp only:)
  then have hi: "(ucast (drop_bit 8 ?w) :: byte) = word_of_nat (unat ?w div 256)"
    by (simp only: of_nat_unat)
  have "(word_of_nat n :: byte) = word_of_nat (n mod 256)" for n
    by (simp add: word_of_nat_eq_iff take_bit_eq_mod)
  from this [of "unat ?w"] have lo: "(ucast ?w :: byte) = word_of_nat (unat ?w mod 256)"
    by (simp only: of_nat_unat)
  show ?thesis
    unfolding be16_def be16_bytes_def hi lo u ..
qed

lemma write_TPL_makeTPL:
  "write_TPL (makeTPL fmt w h) =
     [0x00, 0x20, 0xAF, 0x30] @ [0, 0, 0, 1] @ [0, 0, 0, 0x0C] @ [0, 0, 0, 20] @ [0, 0, 0, 0]
     @ be16_bytes (nat (h mod 65536)) @ be16_bytes (nat (w mod 65536)) @ be32 fmt
     @ [0, 0, 0, 64] @ [0, 0, 0, 0] @ [0, 0, 0, 0] @ [0, 0, 0, 1] @ [0, 0, 0, 1]
     @ [0, 0, 0, 0] @ [0, 0, 0, 0]"
  unfolding write_TPL_def write_FileHeader_def write_ImageHeader_def makeTPL_def
  by (simp add: be32_consts be16_of_int)








lemma offset_image_panics: "ToIA4 offset_2x2 = Inl IndexOutOfRange"
  by code_simp














section \<open>The claims\<close>




text \<open>
  C2. The claim says that every encoder emits the bytes of a transparent black texel at
  each out-of-bounds position. \<open>ToRGB5A3\<close> does not: on a 1 by 2 white image the texel of
  the second row is stored at bytes 2-3 of the payload, directly after the first one,
  because the two stores and the increments of \<open>z\<close> are inside the else branch of the
  bounds test. \<open>ToRGB565\<close>, whose loop is otherwise the same, stores it at bytes 8-9, after
  the three zero texels that complete the first row of the block. \<open>ToI4\<close> on the same
  image packs the intensity of the pixel of the second row into the low nibble of its first
  byte, as the texel at position (1, 0), which is beyond the width.
\<close>

theorem out_of_bounds_positions:
  "ToRGB5A3 white_1x2
     = Inr (write_TPL (makeTPL RGB5A3 1 2) @ [0xFF, 0xFF, 0xFF, 0xFF] @ replicate 28 0)
   \<and> ToRGB565 white_1x2
     = Inr (write_TPL (makeTPL RGB565 1 2) @ [0xFF, 0xFF, 0, 0, 0, 0, 0, 0, 0xFF, 0xFF] @ replicate 22 0)
   \<and> ToI4 white_1x2
     = Inr (write_TPL (makeTPL I4 1 2) @ [0xFF, 0, 0, 0, 0xF0] @ replicate 27 0)"
proof -
  have "ToRGB5A3 white_1x2
     = Inr (write_TPL (makeTPL RGB5A3 1 2) @ [0xFF, 0xFF, 0xFF, 0xFF] @ replicate 28 0)"
    by code_simp
  moreover have "ToRGB565 white_1x2
     = Inr (write_TPL (makeTPL RGB565 1 2) @ [0xFF, 0xFF, 0, 0, 0, 0, 0, 0, 0xFF, 0xFF] @ replicate 22 0)"
    by code_simp
  moreover have "ToI4 white_1x2
     = Inr (write_TPL (makeTPL I4 1 2) @ [0xFF, 0, 0, 0, 0xF0] @ replicate 27 0)"
    by code_simp
  ultimately show ?thesis
    by simp
qed









text \<open>
  C7. Every blob a conversion returns is the serialized header followed directly by the
  payload of the encoder. The header is, in order: the magic \<open>00 20 AF 30\<close>, the image
  count \<open>00 00 00 01\<close>, the image table offset \<open>0x0C\<close>, the image offset 20, the palette
  offset 0, the height and the width as 16-bit big-endian values, the format id, the data
  offset 64, the two wrap fields 0, the two filter fields 1, and eight zero bytes for the
  LOD bias, the three LOD bytes and the unpacked flag.
\<close>

theorem header_layout:
  assumes "(conv, fmt, enc) \<in> set converters" "conv img = Inr blob"
  shows "\<exists>raw payload.
           imageToRGBA img = Inr raw \<and> enc raw (Max_X img) (Max_Y img) = Inr payload
           \<and> blob = [0x00, 0x20, 0xAF, 0x30] @ [0, 0, 0, 1] @ [0, 0, 0, 0x0C] @ [0, 0, 0, 20]
                  @ [0, 0, 0, 0]
                  @ be16_bytes (nat (Max_Y img mod 65536)) @ be16_bytes (nat (Max_X img mod 65536))
                  @ [0, 0, 0, ucast fmt]
                  @ [0, 0, 0, 64] @ [0, 0, 0, 0] @ [0, 0, 0, 0] @ [0, 0, 0, 1] @ [0, 0, 0, 1]
                  @ [0, 0, 0, 0] @ [0, 0, 0, 0]
                  @ payload"
proof -
  have "be32 fmt = [0, 0, 0, ucast fmt]"
    using assms(1) by (auto simp: converters_def be32_formats) (simp_all add: I4_def IA4_def RGB565_def RGB5A3_def)
  then show ?thesis
    using converter_success [OF assms] by (auto simp: write_TPL_makeTPL)
qed

theorem header_layout_witness:
  "\<exists>raw payload.
     imageToRGBA white_1x1 = Inr raw \<and> ToIA4_encode raw 1 1 = Inr payload
     \<and> ToIA4 white_1x1
         = Inr ([0x00, 0x20, 0xAF, 0x30,  0, 0, 0, 1,  0, 0, 0, 0x0C,  0, 0, 0, 20,  0, 0, 0, 0,
                 0, 1,  0, 1,  0, 0, 0, 2,  0, 0, 0, 64,  0, 0, 0, 0,  0, 0, 0, 0,  0, 0, 0, 1,
                 0, 0, 0, 1,  0, 0, 0, 0,  0, 0, 0, 0] @ payload)"
proof -
  have m: "(ToIA4, IA4, ToIA4_encode) \<in> set converters"
    by (simp add: converters_def)
  have "Min_X white_1x1 = 0" "Min_Y white_1x1 = 0" "0 \<le> Max_X white_1x1" "0 \<le> Max_Y white_1x1"
    by (simp_all add: white_1x1_def)
  from ToIA4_image [OF this] obtain blob where e: "ToIA4 white_1x1 = Inr blob"
    by blast
  show ?thesis
    using header_layout [OF m e] e
    by (simp add: white_1x1_def be16_bytes_def IA4_def)
qed




text \<open>
  C9. In every blob a conversion returns, the serialized header is 56 bytes: 12 for the file
  header, 4 for the image offset 20, 4 for the palette offset 0 and 36 for the image header.
  The payload of the encoder is what follows byte 56, although the data offset field, at
  bytes 28-31, holds 64.
\<close>

theorem header_is_56_bytes:
  assumes "(conv, fmt, enc) \<in> set converters" "conv img = Inr blob"
  shows "length (write_FileHeader (Header (makeTPL fmt (Max_X img) (Max_Y img)))) = 12
       \<and> be32 (ImageOff (makeTPL fmt (Max_X img) (Max_Y img))) = [0, 0, 0, 20]
       \<and> be32 (PaletteOff (makeTPL fmt (Max_X img) (Max_Y img))) = [0, 0, 0, 0]
       \<and> length (write_ImageHeader (Image (makeTPL fmt (Max_X img) (Max_Y img)))) = 36
       \<and> length (write_TPL (makeTPL fmt (Max_X img) (Max_Y img))) = 56
       \<and> take 56 blob = write_TPL (makeTPL fmt (Max_X img) (Max_Y img))
       \<and> (\<exists>raw. imageToRGBA img = Inr raw \<and> enc raw (Max_X img) (Max_Y img) = Inr (drop 56 blob))
       \<and> DataOffset (Image (makeTPL fmt (Max_X img) (Max_Y img))) = 64
       \<and> take 4 (drop 28 blob) = [0, 0, 0, 64]"
proof -
  from converter_success [OF assms] obtain raw payload where
    r: "imageToRGBA img = Inr raw" "enc raw (Max_X img) (Max_Y img) = Inr payload"
    and b: "blob = write_TPL (makeTPL fmt (Max_X img) (Max_Y img)) @ payload"
    by blast
  have "take 4 (drop 28 blob) = [0, 0, 0, 64]"
    unfolding b write_TPL_makeTPL by (simp add: be16_bytes_def be32_def)
  moreover have "take 56 blob = write_TPL (makeTPL fmt (Max_X img) (Max_Y img))" "drop 56 blob = payload"
    unfolding b by (simp_all add: length_write_TPL)
  moreover have "be32 (ImageOff (makeTPL fmt (Max_X img) (Max_Y img))) = [0, 0, 0, 20]"
      "be32 (PaletteOff (makeTPL fmt (Max_X img) (Max_Y img))) = [0, 0, 0, 0]"
      "DataOffset (Image (makeTPL fmt (Max_X img) (Max_Y img))) = 64"
    by (simp_all add: makeTPL_def be32_consts)
  ultimately show ?thesis
    using r by (simp add: length_write_FileHeader length_write_ImageHeader length_write_TPL)
qed

theorem header_is_56_bytes_witness:
  "length (write_TPL (makeTPL RGB565 1 1)) = 56
   \<and> (\<exists>blob. ToRGB565 white_1x1 = Inr blob
         \<and> take 56 blob = write_TPL (makeTPL RGB565 1 1)
         \<and> (\<exists>raw. imageToRGBA white_1x1 = Inr raw \<and> ToRGB565_encode raw 1 1 = Inr (drop 56 blob))
         \<and> take 4 (drop 28 blob) = [0, 0, 0, 64])"
proof -
  have m: "(ToRGB565, RGB565, ToRGB565_encode) \<in> set converters"
    by (simp add: converters_def)
  have "Min_X white_1x1 = 0" "Min_Y white_1x1 = 0" "0 \<le> Max_X white_1x1" "0 \<le> Max_Y white_1x1"
    by (simp_all add: white_1x1_def)
  from ToRGB565_image [OF this] obtain blob where e: "ToRGB565 white_1x1 = Inr blob"
    by blast
  have x: "Max_X white_1x1 = 1" "Max_Y white_1x1 = 1"
    by (simp_all add: white_1x1_def)
  show ?thesis
    using header_is_56_bytes [OF m e] e unfolding x by simp
qed



end
